theory Spec2Isabelle
  imports Main
begin

section \<open>Python strings\<close>

text \<open>
  A Python \<open>str\<close> is modelled as a \<open>string\<close> whose characters stand for code points
  below 256. \<open>py_isspace\<close> lists the code points of that range for which
  \<open>str.isspace\<close> holds; they are the characters \<open>str.strip()\<close> removes.
\<close>

definition py_isspace :: "char \<Rightarrow> bool" where
  "py_isspace c = (of_char c \<in> {9, 10, 11, 12, 13, 28, 29, 30, 31, 32, 133, 160 :: nat})"

definition strip :: "string \<Rightarrow> string" where
  "strip s = rev (dropWhile py_isspace (rev (dropWhile py_isspace s)))"

text \<open>\<open>sep.join(parts)\<close>\<close>

fun join :: "string \<Rightarrow> string list \<Rightarrow> string" where
  "join sep [] = []"
| "join sep [x] = x"
| "join sep (x # y # ys) = x @ sep @ join sep (y # ys)"

text \<open>A string with no leading and no trailing whitespace.\<close>

definition trimmed :: "string \<Rightarrow> bool" where
  "trimmed s = (s = [] \<or> (\<not> py_isspace (hd s) \<and> \<not> py_isspace (last s)))"

section \<open>Exceptions\<close>

text \<open>
  Every failure of the libraries the script calls is an instance of Python's
  \<open>Exception\<close>: Playwright's \<open>TimeoutError\<close> (imported as \<open>pwTimeout\<close>), any other
  Playwright error, tenacity's \<open>RetryError\<close>, \<open>ValueError\<close> of \<open>urljoin\<close>, and an
  exception of the HTML parser.
\<close>

datatype exn = PwTimeout | PwError | RetryError | ValueError | ParserError

section \<open>The document tree of BeautifulSoup\<close>

text \<open>
  \<open>BeautifulSoup(html, "html.parser")\<close> is the library's; the model starts from the tree
  it builds. A \<open>Tag\<close> has a name, the values of its \<open>class\<close> attribute, its other
  attributes, and its contents. \<open>NavigableString\<close> is text that \<open>get_text\<close> reads;
  \<open>Comment\<close> stands for the string kinds it skips (comments, declarations).
\<close>

datatype node =
    NavigableString string
  | Comment string
  | Tag string "string list" "(string \<times> string) list" "node list"

text \<open>
  An element as a selector sees it: the node with the names of its ancestors, nearest
  first. The CSS descendant combinator looks at every ancestor in the document, also
  those above the element \<open>select\<close> was called on.
\<close>

type_synonym element = "string list \<times> node"

fun descendants :: "string list \<Rightarrow> node \<Rightarrow> element list" where
  "descendants anc (Tag n cls attrs kids) =
     concat (map (\<lambda>k. (n # anc, k) # descendants (n # anc) k) kids)"
| "descendants anc (NavigableString s) = []"
| "descendants anc (Comment s) = []"

fun is_tag_named :: "string \<Rightarrow> node \<Rightarrow> bool" where
  "is_tag_named t (Tag n cls attrs kids) = (n = t)"
| "is_tag_named t (NavigableString s) = False"
| "is_tag_named t (Comment s) = False"

fun has_class :: "string \<Rightarrow> node \<Rightarrow> bool" where
  "has_class c (Tag n cls attrs kids) = (c \<in> set cls)"
| "has_class c (NavigableString s) = False"
| "has_class c (Comment s) = False"

text \<open>\<open>el.select("t.c")\<close>: the descendants that are tags \<open>t\<close> of class \<open>c\<close>, in document order.\<close>

definition select_class :: "string \<Rightarrow> string \<Rightarrow> element \<Rightarrow> element list" where
  "select_class t c el =
     filter (\<lambda>d. is_tag_named t (snd d) \<and> has_class c (snd d)) (descendants (fst el) (snd el))"

text \<open>\<open>el.select("t")\<close> and \<open>el.find_all("t")\<close>: the descendants that are tags \<open>t\<close>.\<close>

definition find_all :: "string \<Rightarrow> element \<Rightarrow> element list" where
  "find_all t el = filter (\<lambda>d. is_tag_named t (snd d)) (descendants (fst el) (snd el))"

text \<open>\<open>el.find("t")\<close>: the first of them, or \<open>None\<close>.\<close>

definition find_first :: "string \<Rightarrow> element \<Rightarrow> element option" where
  "find_first t el = (case find_all t el of [] \<Rightarrow> None | d # ds \<Rightarrow> Some d)"

text \<open>\<open>el.select_one("h t")\<close>: the first descendant tag \<open>t\<close> that has an ancestor \<open>h\<close>.\<close>

definition select_one_inside :: "string \<Rightarrow> string \<Rightarrow> element \<Rightarrow> element option" where
  "select_one_inside h t el =
     (case filter (\<lambda>d. is_tag_named t (snd d) \<and> h \<in> set (fst d)) (descendants (fst el) (snd el)) of
        [] \<Rightarrow> None
      | d # ds \<Rightarrow> Some d)"

text \<open>\<open>tag.get(key)\<close>\<close>

fun get_attr :: "string \<Rightarrow> node \<Rightarrow> string option" where
  "get_attr key (Tag n cls attrs kids) = map_of attrs key"
| "get_attr key (NavigableString s) = None"
| "get_attr key (Comment s) = None"

text \<open>The strings \<open>get_text\<close> reads, in document order.\<close>

fun all_strings :: "node \<Rightarrow> string list" where
  "all_strings (NavigableString s) = [s]"
| "all_strings (Comment s) = []"
| "all_strings (Tag n cls attrs kids) = concat (map all_strings kids)"

text \<open>
  \<open>el.get_text(sep, strip=True)\<close>: every string stripped, the empty ones left out, the
  rest joined with \<open>sep\<close>.
\<close>

definition get_text :: "string \<Rightarrow> element \<Rightarrow> string" where
  "get_text sep el = join sep (filter (\<lambda>s. s \<noteq> []) (map strip (all_strings (snd el))))"

section \<open>The Detail Parser: \<open>parse_about_from_html\<close>\<close>

text \<open>The inner loop \<open>for p in ps\<close>.\<close>

fun paragraphs_loop :: "string list \<Rightarrow> element list \<Rightarrow> string list" where
  "paragraphs_loop parts [] = parts"
| "paragraphs_loop parts (p # ps) =
     (let text = get_text '' '' p
      in paragraphs_loop (if text \<noteq> [] then parts @ [text] else parts) ps)"

text \<open>The body of \<open>for block in field_blocks\<close>.\<close>

definition block_step :: "string list \<Rightarrow> element \<Rightarrow> string list" where
  "block_step parts block =
     (let ps = find_all ''p'' block
      in if ps \<noteq> [] then paragraphs_loop parts ps
         else (let text = get_text '' '' block
               in if text \<noteq> [] \<and> length text > 30 then parts @ [text] else parts))"

fun blocks_loop :: "string list \<Rightarrow> element list \<Rightarrow> string list" where
  "blocks_loop parts [] = parts"
| "blocks_loop parts (block # blocks) = blocks_loop (block_step parts block) blocks"

definition parse_about_from_html :: "(string \<Rightarrow> exn + node) \<Rightarrow> string option \<Rightarrow> exn + string" where
  "parse_about_from_html BeautifulSoup html =
     (case html of
        None \<Rightarrow> Inr []
      | Some h \<Rightarrow>
          if h = [] then Inr []
          else (case BeautifulSoup h of
                  Inl e \<Rightarrow> Inl e
                | Inr soup \<Rightarrow>
                    Inr (strip (join [CHR 0x0A, CHR 0x0A]
                      (blocks_loop [] (select_class ''div'' ''field-content'' ([], soup)))))))"

section \<open>The Card Parser: \<open>parse_main_cards\<close>\<close>

definition BASE :: string where
  "BASE = ''https://www.alternatives.org.uk''"

text \<open>
  The dictionaries of the script are records. A CardRecord has the keys \<open>Name\<close>,
  \<open>First Tag\<close>, \<open>Last Tag\<close> and \<open>Detail URL\<close>; an EnrichedRecord has the first three
  and \<open>About the Speaker\<close>.
\<close>

record tagged_name =
  Name :: string
  First_Tag :: string
  Last_Tag :: string

record card = tagged_name +
  Detail_URL :: "string option"

record speaker = tagged_name +
  About_the_Speaker :: string

text \<open>
  Lines 54 to 60: the two tags of a row. \<open>lis[0]\<close> and \<open>lis[-1]\<close> are read only when
  \<open>lis\<close> is not empty, and a \<open>Tag\<close> is always truthy.
\<close>

definition row_tags :: "element \<Rightarrow> string \<times> string" where
  "row_tags node =
     (case find_first ''ul'' node of
        None \<Rightarrow> ([], [])
      | Some ul \<Rightarrow>
          (case find_all ''li'' ul of
             [] \<Rightarrow> ([], [])
           | l # ls \<Rightarrow> (get_text [] l, get_text [] (last (l # ls)))))"

text \<open>
  The body of \<open>for node in nodes\<close>. \<open>urljoin\<close> is the library's and is a parameter; it
  raises \<open>ValueError\<close> on some references, and the script does not catch it.
\<close>

definition row_card :: "(string \<Rightarrow> string \<Rightarrow> exn + string) \<Rightarrow> element \<Rightarrow> exn + card" where
  "row_card urljoin node =
     (let a = select_one_inside ''h3'' ''a'' node;
          name = (case a of Some e \<Rightarrow> get_text [] e | None \<Rightarrow> []);
          href = (case a of Some e \<Rightarrow> get_attr ''href'' (snd e) | None \<Rightarrow> None);
          resolved = (case href of
                        None \<Rightarrow> Inr None
                      | Some h \<Rightarrow>
                          if h = [] then Inr None
                          else (case urljoin BASE h of Inl e \<Rightarrow> Inl e | Inr u \<Rightarrow> Inr (Some u)));
          tags = row_tags node
      in case resolved of
           Inl e \<Rightarrow> Inl e
         | Inr detail_url \<Rightarrow>
             Inr \<lparr>Name = strip name, First_Tag = strip (fst tags), Last_Tag = strip (snd tags),
                  Detail_URL = detail_url\<rparr>)"

fun cards_loop :: "(string \<Rightarrow> string \<Rightarrow> exn + string) \<Rightarrow> card list \<Rightarrow> element list \<Rightarrow> exn + card list" where
  "cards_loop urljoin results [] = Inr results"
| "cards_loop urljoin results (node # nodes) =
     (case row_card urljoin node of
        Inl e \<Rightarrow> Inl e
      | Inr c \<Rightarrow> cards_loop urljoin (results @ [c]) nodes)"

definition parse_main_cards ::
  "(string \<Rightarrow> exn + node) \<Rightarrow> (string \<Rightarrow> string \<Rightarrow> exn + string) \<Rightarrow> string \<Rightarrow> exn + card list" where
  "parse_main_cards BeautifulSoup urljoin html =
     (case BeautifulSoup html of
        Inl e \<Rightarrow> Inl e
      | Inr soup \<Rightarrow> cards_loop urljoin [] (select_class ''div'' ''views-row'' ([], soup)))"

section \<open>The Retrying Fetcher: \<open>fetch_detail_html\<close>\<close>

text \<open>
  The browser is the environment. What the \<open>k\<close>-th page asked of the context does is
  given by \<open>page_outcomes\<close>: the exception each call raises, if any, and the HTML that
  \<open>content()\<close> returns. The context counts the calls of \<open>new_page\<close>, holds the pages
  that are open, and records every call made on a page.
\<close>

record page_outcomes =
  new_page_exn :: "exn option"
  goto_exn :: "exn option"
  wait_for_selector_exn :: "exn option"
  content_res :: "exn + string"
  close_exn :: "exn option"

datatype event =
    NewPage nat
  | Goto nat string
  | WaitForSelector nat string
  | Content nat
  | Close nat

record browser_context =
  new_page_calls :: nat
  open_pages :: "nat list"
  events :: "event list"

type_synonym browser = "nat \<Rightarrow> page_outcomes"

definition RETRY_ATTEMPTS :: nat where
  "RETRY_ATTEMPTS = 3"

definition record_event :: "event \<Rightarrow> browser_context \<Rightarrow> browser_context" where
  "record_event e s = s\<lparr>events := events s @ [e]\<rparr>"

text \<open>The \<open>try\<close> block: \<open>goto\<close>, \<open>wait_for_selector\<close>, the pause, \<open>content\<close>.\<close>

definition try_block :: "page_outcomes \<Rightarrow> nat \<Rightarrow> string \<Rightarrow> browser_context \<Rightarrow> (exn + string) \<times> browser_context" where
  "try_block b k url s =
     (let s1 = record_event (Goto k url) s
      in case goto_exn b of
           Some e \<Rightarrow> (Inl e, s1)
         | None \<Rightarrow>
             (let s2 = record_event (WaitForSelector k ''div.field-content'') s1
              in case wait_for_selector_exn b of
                   Some e \<Rightarrow> (Inl e, s2)
                 | None \<Rightarrow>
                     (let s3 = record_event (Content k) s2
                      in case content_res b of
                           Inl e \<Rightarrow> (Inl e, s3)
                         | Inr html \<Rightarrow> (Inr html, s3))))"

text \<open>
  The \<open>finally\<close> block: \<open>page.close()\<close> inside \<open>try ... except Exception: pass\<close>. A page
  whose \<open>close\<close> raised stays in \<open>open_pages\<close>.
\<close>

definition finally_block :: "page_outcomes \<Rightarrow> nat \<Rightarrow> browser_context \<Rightarrow> browser_context" where
  "finally_block b k s =
     (let s1 = record_event (Close k) s
      in case close_exn b of
           None \<Rightarrow> s1\<lparr>open_pages := remove1 k (open_pages s1)\<rparr>
         | Some e \<Rightarrow> s1)"

text \<open>One call of the undecorated function: one attempt.\<close>

definition fetch_attempt :: "browser \<Rightarrow> string \<Rightarrow> browser_context \<Rightarrow> (exn + string) \<times> browser_context" where
  "fetch_attempt browser url s =
     (let k = new_page_calls s;
          b = browser k;
          s1 = record_event (NewPage k) (s\<lparr>new_page_calls := Suc k\<rparr>)
      in case new_page_exn b of
           Some e \<Rightarrow> (Inl e, s1)
         | None \<Rightarrow>
             (let s2 = s1\<lparr>open_pages := k # open_pages s1\<rparr>;
                  body = try_block b k url s2
              in (fst body, finally_block b k (snd body))))"

text \<open>
  The decorator \<open>@retry(stop=stop_after_attempt(RETRY_ATTEMPTS), ..., reraise=True)\<close>:
  an attempt that returns ends the call; after an attempt that raises, the call stops when
  the attempt number has reached \<open>RETRY_ATTEMPTS\<close> and raises that attempt's exception
  again (\<open>reraise=True\<close>), and otherwise waits and makes the next attempt. The waits take
  time and change nothing else.
\<close>

function fetch_detail_html_from :: "nat \<Rightarrow> browser \<Rightarrow> string \<Rightarrow> browser_context \<Rightarrow> (exn + string) \<times> browser_context" where
  "fetch_detail_html_from attempt_number browser url s =
     (let r = fetch_attempt browser url s
      in case fst r of
           Inr html \<Rightarrow> (Inr html, snd r)
         | Inl e \<Rightarrow>
             if attempt_number \<ge> RETRY_ATTEMPTS then (Inl e, snd r)
             else fetch_detail_html_from (Suc attempt_number) browser url (snd r))"
  by pat_completeness auto
termination
  by (relation "measure (\<lambda>(n, b, u, s). RETRY_ATTEMPTS - n)") auto

definition fetch_detail_html :: "browser \<Rightarrow> string \<Rightarrow> browser_context \<Rightarrow> (exn + string) \<times> browser_context" where
  "fetch_detail_html browser url s = fetch_detail_html_from 1 browser url s"

section \<open>The enrich loop of \<open>main\<close>\<close>

text \<open>
  Lines 121 to 128: the biography of one record. \<open>except (RetryError, pwTimeout,
  Exception)\<close> catches every exception of the fetch and of the parse.
\<close>

definition about_text_of ::
  "(string \<Rightarrow> exn + node) \<Rightarrow> browser \<Rightarrow> card \<Rightarrow> browser_context \<Rightarrow> string \<times> browser_context" where
  "about_text_of BeautifulSoup browser rec s =
     (case Detail_URL rec of
        None \<Rightarrow> ([], s)
      | Some detail_url \<Rightarrow>
          if detail_url = [] then ([], s)
          else (let r = fetch_detail_html browser detail_url s
                in case fst r of
                     Inl e \<Rightarrow> ([], snd r)
                   | Inr html \<Rightarrow>
                       (case parse_about_from_html BeautifulSoup (Some html) of
                          Inl e \<Rightarrow> ([], snd r)
                        | Inr about_text \<Rightarrow> (about_text, snd r))))"

text \<open>The body of \<open>for idx, rec in enumerate(records, start=1)\<close>.\<close>

definition enrich_step ::
  "(string \<Rightarrow> exn + node) \<Rightarrow> browser \<Rightarrow> card \<Rightarrow> browser_context \<times> speaker list \<Rightarrow> browser_context \<times> speaker list" where
  "enrich_step BeautifulSoup browser rec st =
     (let r = about_text_of BeautifulSoup browser rec (fst st)
      in (snd r,
          snd st @ [\<lparr>Name = strip (Name rec), First_Tag = strip (First_Tag rec),
                     Last_Tag = strip (Last_Tag rec), About_the_Speaker = strip (fst r)\<rparr>]))"

fun enrich_loop ::
  "(string \<Rightarrow> exn + node) \<Rightarrow> browser \<Rightarrow> card list \<Rightarrow> browser_context \<times> speaker list \<Rightarrow> browser_context \<times> speaker list" where
  "enrich_loop BeautifulSoup browser [] st = st"
| "enrich_loop BeautifulSoup browser (rec # records) st =
     enrich_loop BeautifulSoup browser records (enrich_step BeautifulSoup browser rec st)"

section \<open>Post-processing: the data frame\<close>

text \<open>
  A cell of the frame is a string or absent (\<open>None\<close>); a row is the list of its cells in
  the order of \<open>columns\<close>.
\<close>

type_synonym cell = "string option"

definition DataFrame :: "speaker list \<Rightarrow> cell list list" where
  "DataFrame speakers =
     map (\<lambda>sp. [Some (Name sp), Some (First_Tag sp), Some (Last_Tag sp), Some (About_the_Speaker sp)])
       speakers"

text \<open>\<open>df.replace(["", None], "N/A")\<close>\<close>

definition replace_cell :: "cell \<Rightarrow> cell" where
  "replace_cell c = (if c = Some [] \<or> c = None then Some ''N/A'' else c)"

definition df_replace :: "cell list list \<Rightarrow> cell list list" where
  "df_replace rows = map (map replace_cell) rows"

text \<open>\<open>df.drop_duplicates()\<close>, with its default \<open>keep='first'\<close>: a row equal to one seen before is dropped.\<close>

fun drop_duplicates_seen :: "'a list \<Rightarrow> 'a list \<Rightarrow> 'a list" where
  "drop_duplicates_seen seen [] = []"
| "drop_duplicates_seen seen (r # rs) =
     (if r \<in> set seen then drop_duplicates_seen seen rs
      else r # drop_duplicates_seen (seen @ [r]) rs)"

definition drop_duplicates :: "'a list \<Rightarrow> 'a list" where
  "drop_duplicates rows = drop_duplicates_seen [] rows"

text \<open>Lines 144 to 147; \<open>reset_index\<close> renumbers the rows and keeps their order.\<close>

definition post_process :: "speaker list \<Rightarrow> cell list list" where
  "post_process speakers = drop_duplicates (df_replace (DataFrame speakers))"

section \<open>The wording of the specification\<close>

text \<open>
  Following the spec's words, for comparison with the code: the visible text of an element
  with whitespace collapsed, that is, its strings joined, every run of whitespace turned
  into one space, and none left at the ends.
\<close>

fun split_whitespace :: "string \<Rightarrow> string \<Rightarrow> string list" where
  "split_whitespace w [] = (if w = [] then [] else [w])"
| "split_whitespace w (c # cs) =
     (if py_isspace c then (if w = [] then split_whitespace [] cs else w # split_whitespace [] cs)
      else split_whitespace (w @ [c]) cs)"

definition spec_collapsed_text :: "element \<Rightarrow> string" where
  "spec_collapsed_text el = join '' '' (split_whitespace [] (join '' '' (all_strings (snd el))))"

text \<open>
  Following the spec's words: the items of a list are the \<open>li\<close> elements that are its
  children.
\<close>

fun spec_list_items :: "element \<Rightarrow> element list" where
  "spec_list_items (anc, Tag n cls attrs kids) = map (\<lambda>k. (n # anc, k)) (filter (is_tag_named ''li'') kids)"
| "spec_list_items (anc, NavigableString s) = []"
| "spec_list_items (anc, Comment s) = []"

section \<open>Sample documents\<close>

text \<open>Content blocks of a detail page, with texts of 30, 31 and 37 characters.\<close>

definition short_paragraph_block :: element where
  "short_paragraph_block =
     ([''[document]''],
      Tag ''div'' [''field-content''] []
        [NavigableString ''Label'', Tag ''p'' [] [] [NavigableString '' Hi '']])"

definition caption_block :: element where
  "caption_block =
     ([''[document]''],
      Tag ''div'' [''field-content''] [] [NavigableString ''  Photo: the speaker in May 2019  ''])"

definition long_text_block :: element where
  "long_text_block =
     ([''[document]''],
      Tag ''div'' [''field-content''] [] [NavigableString '' Photo: the speaker in June 2019''])"

definition blank_paragraph_block :: element where
  "blank_paragraph_block =
     ([''[document]''],
      Tag ''div'' [''field-content''] []
        [NavigableString ''She has taught meditation since 1990.'',
         Tag ''p'' [] [] [NavigableString ''   '']])"

text \<open>
  A content block whose only text has a long gap between two words: 44 characters as it
  stands, 22 once the gap is collapsed.
\<close>

definition wide_gap_block :: element where
  "wide_gap_block =
     ([''[document]''],
      Tag ''div'' [''field-content''] []
        [NavigableString ''Born in                       Leeds, England''])"

definition wide_gap_document :: node where
  "wide_gap_document = Tag ''[document]'' [] [] [snd wide_gap_block]"

text \<open>A detail page made of the first three blocks.\<close>

definition detail_document :: node where
  "detail_document =
     Tag ''[document]'' [] [] [snd short_paragraph_block, snd caption_block, snd long_text_block]"

text \<open>
  A directory page with two rows: a list whose one item holds a nested list, and a list
  whose only \<open>li\<close> sits inside a \<open>div\<close>.
\<close>

definition nested_list_document :: node where
  "nested_list_document =
     Tag ''[document]'' [] []
       [Tag ''div'' [''views-row''] []
          [Tag ''ul'' [] []
             [Tag ''li'' [] []
                [NavigableString ''A'', Tag ''ul'' [] [] [Tag ''li'' [] [] [NavigableString ''B'']]]]],
        Tag ''div'' [''views-row''] []
          [Tag ''ul'' [] [] [Tag ''div'' [] [] [Tag ''li'' [] [] [NavigableString ''X'']]]]]"

text \<open>The cards the script builds from that page.\<close>

definition nested_list_cards :: "card list" where
  "nested_list_cards =
     [\<lparr>Name = [], First_Tag = ''AB'', Last_Tag = ''B'', Detail_URL = None\<rparr>,
      \<lparr>Name = [], First_Tag = ''X'', Last_Tag = ''X'', Detail_URL = None\<rparr>]"

text \<open>
  A directory page with three rows: one without a list, one whose list has one item, and
  one without an anchor whose list is empty.
\<close>

definition directory_document :: node where
  "directory_document =
     Tag ''[document]'' [] []
       [Tag ''div'' [''views-row''] []
          [Tag ''h3'' [] [] [Tag ''a'' [] [(''href'', ''/experts/ann'')] [NavigableString '' Ann '']]],
        Tag ''div'' [''views-row'', ''views-row-even''] []
          [Tag ''h3'' [] [] [Tag ''a'' [] [(''href'', ''/experts/bob'')] [NavigableString ''Bob'']],
           Tag ''ul'' [] [] [Tag ''li'' [] [] [NavigableString '' Author '']]],
        Tag ''div'' [''views-row''] []
          [Tag ''h3'' [] [] [NavigableString ''Cy''], Tag ''ul'' [] [] []]]"

text \<open>The cards the script builds from that page.\<close>

definition directory_cards :: "card list" where
  "directory_cards =
     [\<lparr>Name = ''Ann'', First_Tag = [], Last_Tag = [],
       Detail_URL = Some ''https://www.alternatives.org.uk/experts/ann''\<rparr>,
      \<lparr>Name = ''Bob'', First_Tag = ''Author'', Last_Tag = ''Author'',
       Detail_URL = Some ''https://www.alternatives.org.uk/experts/bob''\<rparr>,
      \<lparr>Name = [], First_Tag = [], Last_Tag = [], Detail_URL = None\<rparr>]"

text \<open>
  A directory page whose second row links to \<open>//[\<close>, a reference with an opening bracket
  and no closing one in its network location.
\<close>

definition broken_link_document :: node where
  "broken_link_document =
     Tag ''[document]'' [] []
       [Tag ''div'' [''views-row''] []
          [Tag ''h3'' [] [] [Tag ''a'' [] [(''href'', ''/experts/ann'')] [NavigableString ''Ann'']]],
        Tag ''div'' [''views-row''] []
          [Tag ''h3'' [] [] [Tag ''a'' [] [(''href'', ''//['')] [NavigableString ''Bob'']]]]"

text \<open>
  A stand-in for \<open>urljoin\<close> on the references of the sample pages: it appends an absolute
  path to the base, and raises \<open>ValueError\<close> on \<open>//[\<close>, as \<open>urllib.parse.urljoin\<close> does
  (\<open>Invalid IPv6 URL\<close>).
\<close>

definition path_urljoin :: "string \<Rightarrow> string \<Rightarrow> exn + string" where
  "path_urljoin base url = (if url = ''//['' then Inl ValueError else Inr (base @ url))"

section \<open>Sample browsers\<close>

definition fresh_context :: browser_context where
  "fresh_context = \<lparr>new_page_calls = 0, open_pages = [], events = []\<rparr>"

text \<open>A page whose navigation times out, and a page that renders a biography; on both, \<open>close\<close> raises.\<close>

definition timeout_page :: page_outcomes where
  "timeout_page =
     \<lparr>new_page_exn = None, goto_exn = Some PwTimeout, wait_for_selector_exn = None,
      content_res = Inr ''<html></html>'', close_exn = Some PwError\<rparr>"

definition bio_page :: page_outcomes where
  "bio_page =
     \<lparr>new_page_exn = None, goto_exn = None, wait_for_selector_exn = None,
      content_res = Inr ''<div class=field-content><p> Bio </p></div>'', close_exn = Some PwError\<rparr>"

text \<open>A browser whose first two pages time out, and one on which every page does.\<close>

definition flaky_browser :: browser where
  "flaky_browser k = (if k < 2 then timeout_page else bio_page)"

definition dead_browser :: browser where
  "dead_browser k = timeout_page"

text \<open>
  The end-to-end run of three cards: the first has no link, the three attempts for the
  second time out, the page of the third renders.
\<close>

definition end_to_end_browser :: browser where
  "end_to_end_browser k = (if k < 3 then timeout_page else bio_page)"

definition bio_document :: node where
  "bio_document =
     Tag ''[document]'' [] []
       [Tag ''div'' [''field-content''] [] [Tag ''p'' [] [] [NavigableString '' Bio '']]]"

definition sample_parser :: "string \<Rightarrow> exn + node" where
  "sample_parser h =
     (if h = ''<div class=field-content><p> Bio </p></div>'' then Inr bio_document
      else Inl ParserError)"

definition sample_cards :: "card list" where
  "sample_cards =
     [\<lparr>Name = ''Ann'', First_Tag = ''Healing'', Last_Tag = ''Yoga'', Detail_URL = None\<rparr>,
      \<lparr>Name = ''Bob'', First_Tag = ''Author'', Last_Tag = ''Author'',
       Detail_URL = Some ''https://www.alternatives.org.uk/bob''\<rparr>,
      \<lparr>Name = '' Cy '', First_Tag = [], Last_Tag = [],
       Detail_URL = Some ''https://www.alternatives.org.uk/cy''\<rparr>]"

text \<open>Speakers with repeated rows and empty fields.\<close>

definition sample_speakers :: "speaker list" where
  "sample_speakers =
     [\<lparr>Name = ''Ann'', First_Tag = ''Healing'', Last_Tag = ''Yoga'', About_the_Speaker = []\<rparr>,
      \<lparr>Name = ''Bob'', First_Tag = [], Last_Tag = [], About_the_Speaker = ''Bio''\<rparr>,
      \<lparr>Name = ''Ann'', First_Tag = ''Healing'', Last_Tag = ''Yoga'', About_the_Speaker = ''N/A''\<rparr>,
      \<lparr>Name = ''Bob'', First_Tag = [], Last_Tag = [], About_the_Speaker = ''Bio''\<rparr>,
      \<lparr>Name = ''Cy'', First_Tag = ''Author'', Last_Tag = ''Author'', About_the_Speaker = []\<rparr>]"

section \<open>Facts about strings\<close>

lemma strip_shape:
  assumes t_def: "t = rev (dropWhile P (rev (dropWhile P s)))"
  shows "t = [] \<or> (\<not> P (hd t) \<and> \<not> P (last t))"
proof (cases "t = []")
  case True
  then show ?thesis by simp
next
  case False
  define a where "a = dropWhile P s"
  define b where "b = dropWhile P (rev a)"
  have t: "t = rev b" by (simp add: t_def a_def b_def)
  with False have b_ne: "b \<noteq> []" by simp
  then have b_hd: "\<not> P (hd b)" unfolding b_def by (rule hd_dropWhile)
  have a_ne: "a \<noteq> []"
  proof
    assume "a = []"
    then have "b = []" by (simp add: b_def)
    with b_ne show False by simp
  qed
  then have a_hd: "\<not> P (hd a)" unfolding a_def by (rule hd_dropWhile)
  have "rev a = takeWhile P (rev a) @ b" by (simp add: b_def)
  then have "rev (rev a) = rev (takeWhile P (rev a) @ b)" by simp
  then have "a = rev b @ rev (takeWhile P (rev a))" by simp
  then have "hd a = hd (rev b @ rev (takeWhile P (rev a)))" by simp
  also have "\<dots> = hd (rev b)" using b_ne by simp
  finally have "hd t = hd a" by (simp add: t)
  moreover have "last t = hd b" using b_ne by (simp add: t last_rev)
  ultimately show ?thesis using a_hd b_hd by simp
qed

lemma strip_trimmed: "trimmed (strip s)"
  unfolding trimmed_def using strip_shape [of "strip s" py_isspace s]
  by (simp add: strip_def)

lemma strip_Nil: "strip [] = []"
  by (simp add: strip_def)

section \<open>The Detail Parser on absent input\<close>

text \<open>
  C7. The Detail Parser applied to an absent input returns the empty string, whatever the
  HTML parser is, so parsing absent input again gives the same empty result.
\<close>

theorem parse_about_absent:
  "parse_about_from_html BeautifulSoup None = Inr []"
  by (simp add: parse_about_from_html_def)

section \<open>The Detail Parser: paragraphs and the 30-character rule\<close>

lemma paragraphs_loop_eq:
  "paragraphs_loop parts ps = parts @ filter (\<lambda>t. t \<noteq> []) (map (get_text '' '') ps)"
  by (induction ps arbitrary: parts) (simp_all add: Let_def)

lemma block_step_append: "block_step parts block = parts @ block_step [] block"
  by (simp add: block_step_def Let_def paragraphs_loop_eq)

lemma blocks_loop_eq: "blocks_loop parts blocks = parts @ concat (map (block_step []) blocks)"
proof (induction blocks arbitrary: parts)
  case Nil
  show ?case by simp
next
  case (Cons b bs)
  have "blocks_loop parts (b # bs) = blocks_loop (block_step parts b) bs" by simp
  also have "\<dots> = block_step parts b @ concat (map (block_step []) bs)" by (rule Cons.IH)
  also have "\<dots> = parts @ block_step [] b @ concat (map (block_step []) bs)"
    using block_step_append [of parts b] by simp
  finally show ?case by simp
qed

text \<open>
  C5. The parser returns the stripped join, with a blank line between them, of what the
  content blocks add in document order. A block that contains paragraph elements adds
  every non-empty stripped paragraph text, whatever its length. A block with no paragraph
  element adds its own text exactly when that text is longer than 30 characters, where the
  text is what \<open>get_text(" ", strip=True)\<close> gives: every string stripped, the non-empty
  ones joined by one space, whitespace inside a string left as it is. When that text has at
  most 30 characters the block adds nothing: the parser returns what it returns for the
  page without the block.
\<close>

theorem parse_about_paragraph_rule:
  assumes "h \<noteq> []" and "BeautifulSoup h = Inr soup"
  shows "parse_about_from_html BeautifulSoup (Some h) =
       Inr (strip (join [CHR 0x0A, CHR 0x0A]
         (concat (map (block_step []) (select_class ''div'' ''field-content'' ([], soup))))))
   \<and> (\<forall>block parts. block_step parts block =
         parts @ (if find_all ''p'' block \<noteq> []
                  then filter (\<lambda>t. t \<noteq> []) (map (get_text '' '') (find_all ''p'' block))
                  else if length (get_text '' '' block) > 30 then [get_text '' '' block] else []))
   \<and> (\<forall>before block after.
         select_class ''div'' ''field-content'' ([], soup) = before @ block # after
         \<and> find_all ''p'' block = [] \<and> length (get_text '' '' block) \<le> 30 \<longrightarrow>
         parse_about_from_html BeautifulSoup (Some h) =
           Inr (strip (join [CHR 0x0A, CHR 0x0A] (concat (map (block_step []) (before @ after))))))"
proof (intro conjI allI impI)
  show whole: "parse_about_from_html BeautifulSoup (Some h) =
       Inr (strip (join [CHR 0x0A, CHR 0x0A]
         (concat (map (block_step []) (select_class ''div'' ''field-content'' ([], soup))))))"
    using assms by (simp add: parse_about_from_html_def blocks_loop_eq)
  fix before block after
  assume a: "select_class ''div'' ''field-content'' ([], soup) = before @ block # after
         \<and> find_all ''p'' block = [] \<and> length (get_text '' '' block) \<le> 30"
  then have "block_step [] block = []"
    by (simp add: block_step_def Let_def)
  with a show "parse_about_from_html BeautifulSoup (Some h) =
           Inr (strip (join [CHR 0x0A, CHR 0x0A] (concat (map (block_step []) (before @ after)))))"
    by (simp add: whole)
next
  fix block parts
  show "block_step parts block =
         parts @ (if find_all ''p'' block \<noteq> []
                  then filter (\<lambda>t. t \<noteq> []) (map (get_text '' '') (find_all ''p'' block))
                  else if length (get_text '' '' block) > 30 then [get_text '' '' block] else [])"
    by (auto simp add: block_step_def Let_def paragraphs_loop_eq)
qed

theorem parse_about_paragraph_rule_witness:
  "select_class ''div'' ''field-content'' ([], detail_document) =
     [short_paragraph_block, caption_block, long_text_block]
   \<and> length (get_text '' '' caption_block) = 30
   \<and> length (get_text '' '' long_text_block) = 31
   \<and> parse_about_from_html (\<lambda>h. Inr detail_document) (Some ''<html>'') =
       Inr (''Hi'' @ [CHR 0x0A, CHR 0x0A] @ ''Photo: the speaker in June 2019'')
   \<and> block_step [] short_paragraph_block = [''Hi'']
   \<and> block_step [] caption_block = []
   \<and> block_step [] long_text_block = [''Photo: the speaker in June 2019'']"
proof -
  have h: "''<html>'' \<noteq> []" by simp
  have p: "(\<lambda>h. Inr detail_document) ''<html>'' = Inr detail_document" by simp
  note t = parse_about_paragraph_rule [OF h p]
  have sel: "select_class ''div'' ''field-content'' ([], detail_document) =
      [short_paragraph_block] @ caption_block # [long_text_block]"
    by code_simp
  have p1: "find_all ''p'' short_paragraph_block \<noteq> []" by code_simp
  have v1: "filter (\<lambda>t. t \<noteq> []) (map (get_text '' '') (find_all ''p'' short_paragraph_block)) = [''Hi'']"
    by code_simp
  have p2: "find_all ''p'' caption_block = []" by code_simp
  have l2: "length (get_text '' '' caption_block) = 30" by code_simp
  have p3: "find_all ''p'' long_text_block = []" by code_simp
  have l3: "length (get_text '' '' long_text_block) = 31" by code_simp
  have v3: "get_text '' '' long_text_block = ''Photo: the speaker in June 2019''" by code_simp
  from t have step: "block_step parts block =
         parts @ (if find_all ''p'' block \<noteq> []
                  then filter (\<lambda>t. t \<noteq> []) (map (get_text '' '') (find_all ''p'' block))
                  else if length (get_text '' '' block) > 30 then [get_text '' '' block] else [])"
    for parts block by blast
  have a: "block_step [] short_paragraph_block = [''Hi'']"
    using step [of "[]" short_paragraph_block] p1 v1 by simp
  have b: "block_step [] caption_block = []"
    using step [of "[]" caption_block] p2 l2 by simp
  have c: "block_step [] long_text_block = [''Photo: the speaker in June 2019'']"
    using step [of "[]" long_text_block] p3 l3 v3 by simp
  from t have drop: "parse_about_from_html (\<lambda>h. Inr detail_document) (Some ''<html>'') =
      Inr (strip (join [CHR 0x0A, CHR 0x0A] (concat (map (block_step []) (before @ after)))))"
    if "select_class ''div'' ''field-content'' ([], detail_document) = before @ block # after"
      and "find_all ''p'' block = []" and "length (get_text '' '' block) \<le> 30"
    for before block after
    using that by blast
  have "parse_about_from_html (\<lambda>h. Inr detail_document) (Some ''<html>'') =
      Inr (strip (join [CHR 0x0A, CHR 0x0A]
        (concat (map (block_step []) ([short_paragraph_block] @ [long_text_block])))))"
    by (rule drop [OF sel p2]) (simp add: l2)
  also have "\<dots> = Inr (strip (join [CHR 0x0A, CHR 0x0A] [''Hi'', ''Photo: the speaker in June 2019'']))"
    by (simp add: a c)
  also have "\<dots> = Inr (''Hi'' @ [CHR 0x0A, CHR 0x0A] @ ''Photo: the speaker in June 2019'')"
    by code_simp
  finally have r: "parse_about_from_html (\<lambda>h. Inr detail_document) (Some ''<html>'') =
      Inr (''Hi'' @ [CHR 0x0A, CHR 0x0A] @ ''Photo: the speaker in June 2019'')" .
  from sel l2 l3 r a b c show ?thesis by simp
qed

text \<open>
  With the collapsed text of the spec in place of the text of \<open>get_text\<close> the rule fails:
  the block with the long gap has no paragraph and a collapsed text of 22 characters, and
  the parser keeps its 44 characters.
\<close>

theorem short_collapsed_text_is_kept:
  "find_all ''p'' wide_gap_block = []
   \<and> spec_collapsed_text wide_gap_block = ''Born in Leeds, England''
   \<and> length (spec_collapsed_text wide_gap_block) = 22
   \<and> select_class ''div'' ''field-content'' ([], wide_gap_document) = [wide_gap_block]
   \<and> block_step [] wide_gap_block = [''Born in                       Leeds, England'']
   \<and> parse_about_from_html (\<lambda>h. Inr wide_gap_document) (Some ''<html>'') =
       Inr ''Born in                       Leeds, England''"
  by code_simp

text \<open>
  C10. A content block that contains paragraph elements whose texts are all empty after
  stripping adds nothing to the parts: with a paragraph present, the block's own text is
  never read, however long it is.
\<close>

theorem empty_paragraphs_contribute_nothing:
  assumes "find_all ''p'' block \<noteq> []"
      and "\<forall>p \<in> set (find_all ''p'' block). get_text '' '' p = []"
  shows "block_step parts block = parts
     \<and> blocks_loop parts (before @ block # after) = blocks_loop parts (before @ after)"
proof -
  from assms(2) have "filter (\<lambda>t. t \<noteq> []) (map (get_text '' '') (find_all ''p'' block)) = []"
    by (simp add: filter_empty_conv)
  with assms(1) have step: "block_step ps block = ps" for ps
    by (simp add: block_step_def Let_def paragraphs_loop_eq)
  then have "block_step [] block = []" .
  then have "blocks_loop parts (before @ block # after) = blocks_loop parts (before @ after)"
    by (simp add: blocks_loop_eq)
  with step show ?thesis by simp
qed

theorem empty_paragraphs_contribute_nothing_witness:
  "length (get_text '' '' blank_paragraph_block) = 37
   \<and> block_step [] blank_paragraph_block = []
   \<and> blocks_loop [] [blank_paragraph_block, long_text_block] = blocks_loop [] [long_text_block]"
proof -
  have p: "find_all ''p'' blank_paragraph_block \<noteq> []" by code_simp
  have e: "\<forall>p \<in> set (find_all ''p'' blank_paragraph_block). get_text '' '' p = []" by code_simp
  have l: "length (get_text '' '' blank_paragraph_block) = 37" by code_simp
  from empty_paragraphs_contribute_nothing [OF p e, of "[]" "[]" "[long_text_block]"] l
  show ?thesis by simp
qed

section \<open>The Retrying Fetcher: attempts\<close>

lemma try_block_frame:
  "new_page_calls (snd (try_block b k url s)) = new_page_calls s
   \<and> open_pages (snd (try_block b k url s)) = open_pages s"
  by (simp add: try_block_def record_event_def Let_def split: option.splits sum.splits)

lemma try_block_result:
  "fst (try_block b k url s) =
     (case goto_exn b of Some e \<Rightarrow> Inl e
      | None \<Rightarrow> (case wait_for_selector_exn b of Some e \<Rightarrow> Inl e | None \<Rightarrow> content_res b))"
  by (simp add: try_block_def Let_def split: option.splits sum.splits)

lemma try_block_events:
  "\<exists>evs. events (snd (try_block b k url s)) = events s @ evs \<and> Close k \<notin> set evs"
  by (simp add: try_block_def record_event_def Let_def split: option.splits sum.splits)

lemma finally_block_frame:
  "new_page_calls (finally_block b k s) = new_page_calls s
   \<and> events (finally_block b k s) = events s @ [Close k]"
  by (simp add: finally_block_def record_event_def Let_def split: option.splits)

lemma fetch_attempt_calls:
  "new_page_calls (snd (fetch_attempt browser url s)) = Suc (new_page_calls s)"
  by (simp add: fetch_attempt_def Let_def try_block_frame finally_block_frame record_event_def
      split: option.splits)

lemma fetch_attempt_result:
  "fst (fetch_attempt browser url s) =
     (let b = browser (new_page_calls s)
      in case new_page_exn b of Some e \<Rightarrow> Inl e
         | None \<Rightarrow> (case goto_exn b of Some e \<Rightarrow> Inl e
            | None \<Rightarrow> (case wait_for_selector_exn b of Some e \<Rightarrow> Inl e | None \<Rightarrow> content_res b)))"
  by (simp add: fetch_attempt_def Let_def try_block_result split: option.splits)

text \<open>
  The three attempts written out. \<open>attempt_number\<close> starts at 1 and the call stops once it
  has reached \<open>RETRY_ATTEMPTS\<close>.
\<close>

lemma retry_unroll:
  "fetch_detail_html browser url s =
     (let a1 = fetch_attempt browser url s
      in case fst a1 of
           Inr html \<Rightarrow> (Inr html, snd a1)
         | Inl e1 \<Rightarrow>
             (let a2 = fetch_attempt browser url (snd a1)
              in case fst a2 of
                   Inr html \<Rightarrow> (Inr html, snd a2)
                 | Inl e2 \<Rightarrow>
                     (let a3 = fetch_attempt browser url (snd a2)
                      in case fst a3 of
                           Inr html \<Rightarrow> (Inr html, snd a3)
                         | Inl e3 \<Rightarrow> (Inl e3, snd a3))))"
proof -
  have three: "fetch_detail_html_from (Suc (Suc (Suc 0))) browser url t =
      (let a = fetch_attempt browser url t
       in case fst a of Inr html \<Rightarrow> (Inr html, snd a) | Inl e \<Rightarrow> (Inl e, snd a))" for t
    by (subst fetch_detail_html_from.simps)
      (simp add: RETRY_ATTEMPTS_def Let_def del: fetch_detail_html_from.simps split: sum.splits)
  have two: "fetch_detail_html_from (Suc (Suc 0)) browser url t =
      (let a = fetch_attempt browser url t
       in case fst a of Inr html \<Rightarrow> (Inr html, snd a)
          | Inl e \<Rightarrow> fetch_detail_html_from (Suc (Suc (Suc 0))) browser url (snd a))" for t
    by (subst fetch_detail_html_from.simps)
      (simp add: RETRY_ATTEMPTS_def Let_def del: fetch_detail_html_from.simps split: sum.splits)
  have one: "fetch_detail_html_from (Suc 0) browser url t =
      (let a = fetch_attempt browser url t
       in case fst a of Inr html \<Rightarrow> (Inr html, snd a)
          | Inl e \<Rightarrow> fetch_detail_html_from (Suc (Suc 0)) browser url (snd a))" for t
    by (subst fetch_detail_html_from.simps)
      (simp add: RETRY_ATTEMPTS_def Let_def del: fetch_detail_html_from.simps split: sum.splits)
  show ?thesis
    unfolding fetch_detail_html_def One_nat_def
    by (simp only: one two three)
qed

text \<open>
  C4. Every attempt asks the context for one new page, so the calls of \<open>new_page\<close> count
  the attempts: a fetch makes at least one and at most three. If the first two attempts
  raise and the third returns, the fetch returns the HTML of the third. If all three raise,
  the fetch raises the exception of the third attempt (\<open>reraise=True\<close>) and returns no
  HTML.
\<close>

theorem fetch_detail_html_three_attempts:
  "new_page_calls s < new_page_calls (snd (fetch_detail_html browser url s))
   \<and> new_page_calls (snd (fetch_detail_html browser url s)) \<le> new_page_calls s + 3
   \<and> (\<forall>e1 e2 html.
        fst (fetch_attempt browser url s) = Inl e1
        \<and> fst (fetch_attempt browser url (snd (fetch_attempt browser url s))) = Inl e2
        \<and> fst (fetch_attempt browser url
              (snd (fetch_attempt browser url (snd (fetch_attempt browser url s))))) = Inr html
        \<longrightarrow> fst (fetch_detail_html browser url s) = Inr html
          \<and> new_page_calls (snd (fetch_detail_html browser url s)) = new_page_calls s + 3)
   \<and> (\<forall>e1 e2 e3.
        fst (fetch_attempt browser url s) = Inl e1
        \<and> fst (fetch_attempt browser url (snd (fetch_attempt browser url s))) = Inl e2
        \<and> fst (fetch_attempt browser url
              (snd (fetch_attempt browser url (snd (fetch_attempt browser url s))))) = Inl e3
        \<longrightarrow> fst (fetch_detail_html browser url s) = Inl e3
          \<and> new_page_calls (snd (fetch_detail_html browser url s)) = new_page_calls s + 3)"
  by (simp add: retry_unroll Let_def fetch_attempt_calls split: sum.splits)

theorem fetch_detail_html_three_attempts_witness:
  "fst (fetch_detail_html flaky_browser ''https://www.alternatives.org.uk/ann'' fresh_context) =
     Inr ''<div class=field-content><p> Bio </p></div>''
   \<and> new_page_calls (snd (fetch_detail_html flaky_browser ''https://www.alternatives.org.uk/ann'' fresh_context)) = 3
   \<and> fst (fetch_detail_html dead_browser ''https://www.alternatives.org.uk/ann'' fresh_context) = Inl PwTimeout
   \<and> new_page_calls (snd (fetch_detail_html dead_browser ''https://www.alternatives.org.uk/ann'' fresh_context)) = 3"
proof -
  let ?u = "''https://www.alternatives.org.uk/ann''"
  let ?a1 = "fetch_attempt flaky_browser ?u fresh_context"
  let ?a2 = "fetch_attempt flaky_browser ?u (snd ?a1)"
  let ?a3 = "fetch_attempt flaky_browser ?u (snd ?a2)"
  let ?d1 = "fetch_attempt dead_browser ?u fresh_context"
  let ?d2 = "fetch_attempt dead_browser ?u (snd ?d1)"
  let ?d3 = "fetch_attempt dead_browser ?u (snd ?d2)"
  have f: "fst ?a1 = Inl PwTimeout \<and> fst ?a2 = Inl PwTimeout
      \<and> fst ?a3 = Inr ''<div class=field-content><p> Bio </p></div>''"
    by code_simp
  have d: "fst ?d1 = Inl PwTimeout \<and> fst ?d2 = Inl PwTimeout \<and> fst ?d3 = Inl PwTimeout"
    by code_simp
  have n: "new_page_calls fresh_context = 0" by (simp add: fresh_context_def)
  from fetch_detail_html_three_attempts [of fresh_context flaky_browser ?u] f n
  have a: "fst (fetch_detail_html flaky_browser ?u fresh_context) =
        Inr ''<div class=field-content><p> Bio </p></div>''
      \<and> new_page_calls (snd (fetch_detail_html flaky_browser ?u fresh_context)) = 3"
    by simp
  from fetch_detail_html_three_attempts [of fresh_context dead_browser ?u] d n
  have b: "fst (fetch_detail_html dead_browser ?u fresh_context) = Inl PwTimeout
      \<and> new_page_calls (snd (fetch_detail_html dead_browser ?u fresh_context)) = 3"
    by simp
  from a b show ?thesis by simp
qed

section \<open>The Retrying Fetcher: closing the page\<close>

lemma fetch_attempt_close_irrelevant:
  assumes "new_page_calls s = new_page_calls t"
  shows "fst (fetch_attempt (\<lambda>k. (browser k)\<lparr>close_exn := c k\<rparr>) url s) = fst (fetch_attempt browser url t)"
  using assms by (simp add: fetch_attempt_result Let_def split: option.splits)

text \<open>
  C8. An attempt that obtained its page calls \<open>close\<close> on it exactly once, as its last
  call, whatever \<open>goto\<close>, \<open>wait_for_selector\<close> and \<open>content\<close> did; when \<open>close\<close>
  succeeds the page is no longer open. What \<open>close\<close> does, raise or not, changes neither
  the result of the attempt nor the result of the whole fetch.
\<close>

theorem fetch_attempt_closes_page:
  "(new_page_exn (browser (new_page_calls s)) = None \<longrightarrow>
      (\<exists>evs. events (snd (fetch_attempt browser url s)) =
                events s @ NewPage (new_page_calls s) # evs @ [Close (new_page_calls s)]
            \<and> Close (new_page_calls s) \<notin> set evs)
      \<and> (close_exn (browser (new_page_calls s)) = None \<longrightarrow>
            open_pages (snd (fetch_attempt browser url s)) = open_pages s))
   \<and> fst (fetch_attempt (\<lambda>k. (browser k)\<lparr>close_exn := c k\<rparr>) url s) = fst (fetch_attempt browser url s)
   \<and> fst (fetch_detail_html (\<lambda>k. (browser k)\<lparr>close_exn := c k\<rparr>) url s) =
       fst (fetch_detail_html browser url s)"
proof (intro conjI impI)
  let ?k = "new_page_calls s"
  define s2 where
    "s2 = (record_event (NewPage ?k) (s\<lparr>new_page_calls := Suc ?k\<rparr>))\<lparr>open_pages := ?k # open_pages s\<rparr>"
  have s2_events: "events s2 = events s @ [NewPage ?k]"
    and s2_pages: "open_pages s2 = ?k # open_pages s"
    by (simp_all add: s2_def record_event_def)
  assume np: "new_page_exn (browser ?k) = None"
  then have run: "snd (fetch_attempt browser url s) =
      finally_block (browser ?k) ?k (snd (try_block (browser ?k) ?k url s2))"
    by (simp add: fetch_attempt_def Let_def record_event_def s2_def)
  obtain evs where evs: "events (snd (try_block (browser ?k) ?k url s2)) = events s2 @ evs"
      and nc: "Close ?k \<notin> set evs"
    using try_block_events [of "browser ?k" ?k url s2] by blast
  have "events (snd (fetch_attempt browser url s)) = events s @ NewPage ?k # evs @ [Close ?k]"
    by (simp add: run finally_block_frame evs s2_events)
  with nc show "\<exists>evs. events (snd (fetch_attempt browser url s)) =
      events s @ NewPage ?k # evs @ [Close ?k] \<and> Close ?k \<notin> set evs"
    by blast
  assume "close_exn (browser ?k) = None"
  then show "open_pages (snd (fetch_attempt browser url s)) = open_pages s"
    by (simp add: run finally_block_def Let_def record_event_def try_block_frame s2_pages)
next
  show "fst (fetch_attempt (\<lambda>k. (browser k)\<lparr>close_exn := c k\<rparr>) url s) = fst (fetch_attempt browser url s)"
    by (rule fetch_attempt_close_irrelevant) simp
next
  let ?B = "\<lambda>k. (browser k)\<lparr>close_exn := c k\<rparr>"
  let ?a1 = "fetch_attempt ?B url s"
  let ?a2 = "fetch_attempt ?B url (snd ?a1)"
  let ?a3 = "fetch_attempt ?B url (snd ?a2)"
  let ?b1 = "fetch_attempt browser url s"
  let ?b2 = "fetch_attempt browser url (snd ?b1)"
  let ?b3 = "fetch_attempt browser url (snd ?b2)"
  have e1: "fst ?a1 = fst ?b1"
    by (rule fetch_attempt_close_irrelevant) simp
  have e2: "fst ?a2 = fst ?b2"
    by (rule fetch_attempt_close_irrelevant) (simp add: fetch_attempt_calls)
  have e3: "fst ?a3 = fst ?b3"
    by (rule fetch_attempt_close_irrelevant) (simp add: fetch_attempt_calls)
  show "fst (fetch_detail_html ?B url s) = fst (fetch_detail_html browser url s)"
    by (simp add: retry_unroll Let_def e1 e2 e3 split: sum.splits)
qed

theorem fetch_attempt_closes_page_witness:
  "events (snd (fetch_attempt end_to_end_browser ''https://www.alternatives.org.uk/bob'' fresh_context)) =
     [NewPage 0, Goto 0 ''https://www.alternatives.org.uk/bob'', Close 0]
   \<and> fst (fetch_attempt end_to_end_browser ''https://www.alternatives.org.uk/bob'' fresh_context) =
       Inl PwTimeout
   \<and> close_exn (end_to_end_browser 0) = Some PwError
   \<and> fst (fetch_attempt (\<lambda>k. (end_to_end_browser k)\<lparr>close_exn := None\<rparr>)
        ''https://www.alternatives.org.uk/bob'' fresh_context) = Inl PwTimeout
   \<and> open_pages (snd (fetch_attempt (\<lambda>k. (end_to_end_browser k)\<lparr>close_exn := None\<rparr>)
        ''https://www.alternatives.org.uk/bob'' fresh_context)) = []"
proof -
  let ?u = "''https://www.alternatives.org.uk/bob''"
  let ?B = "\<lambda>k. (end_to_end_browser k)\<lparr>close_exn := None\<rparr>"
  have e: "events (snd (fetch_attempt end_to_end_browser ?u fresh_context)) =
      [NewPage 0, Goto 0 ?u, Close 0]" by code_simp
  have r: "fst (fetch_attempt end_to_end_browser ?u fresh_context) = Inl PwTimeout" by code_simp
  have c: "close_exn (end_to_end_browser 0) = Some PwError" by code_simp
  have k: "new_page_calls fresh_context = 0" "open_pages fresh_context = []"
    by (simp_all add: fresh_context_def)
  have np: "new_page_exn (?B 0) = None" "close_exn (?B 0) = None"
    by (simp_all add: end_to_end_browser_def timeout_page_def)
  from fetch_attempt_closes_page [of end_to_end_browser fresh_context ?u "\<lambda>k. None"] r
  have r': "fst (fetch_attempt ?B ?u fresh_context) = Inl PwTimeout" by simp
  from fetch_attempt_closes_page [of ?B fresh_context ?u "\<lambda>k. None"] np k
  have o: "open_pages (snd (fetch_attempt ?B ?u fresh_context)) = []" by simp
  from e r c r' o show ?thesis by simp
qed

section \<open>The enrich loop\<close>

lemma enrich_step_snd:
  "snd (enrich_step BS br r st) =
     snd st @ [\<lparr>Name = strip (Name r), First_Tag = strip (First_Tag r), Last_Tag = strip (Last_Tag r),
                About_the_Speaker = strip (fst (about_text_of BS br r (fst st)))\<rparr>]"
  by (simp add: enrich_step_def Let_def)

lemma enrich_loop_snoc:
  "enrich_loop BS br (recs @ [r]) st = enrich_step BS br r (enrich_loop BS br recs st)"
  by (induction recs arbitrary: st) simp_all

lemma enrich_loop_length:
  "length (snd (enrich_loop BS br recs st)) = length (snd st) + length recs"
  by (induction recs arbitrary: st) (simp_all add: enrich_step_snd)

lemma enrich_loop_nth:
  assumes "i < length recs"
  shows "snd (enrich_loop BS br recs (s, [])) ! i =
     \<lparr>Name = strip (Name (recs ! i)), First_Tag = strip (First_Tag (recs ! i)),
      Last_Tag = strip (Last_Tag (recs ! i)),
      About_the_Speaker =
        strip (fst (about_text_of BS br (recs ! i) (fst (enrich_loop BS br (take i recs) (s, [])))))\<rparr>"
  using assms
proof (induction recs arbitrary: i rule: rev_induct)
  case Nil
  then show ?case by simp
next
  case (snoc r recs)
  let ?st = "enrich_loop BS br recs (s, [])"
  have len: "length (snd ?st) = length recs" by (simp add: enrich_loop_length)
  show ?case
  proof (cases "i < length recs")
    case True
    then have "snd (enrich_loop BS br (recs @ [r]) (s, [])) ! i = snd ?st ! i"
      by (simp add: enrich_loop_snoc enrich_step_snd nth_append len)
    with True snoc.IH [of i] show ?thesis by (simp add: nth_append)
  next
    case False
    with snoc.prems have i: "i = length recs" by simp
    then show ?thesis
      by (simp add: enrich_loop_snoc enrich_step_snd nth_append len)
  qed
qed

lemma about_text_of_cases:
  "(Detail_URL rec = None \<or> Detail_URL rec = Some [] \<longrightarrow> fst (about_text_of BS br rec c) = [])
   \<and> (\<forall>u e. Detail_URL rec = Some u \<and> fst (fetch_detail_html br u c) = Inl e \<longrightarrow>
         fst (about_text_of BS br rec c) = [])
   \<and> (\<forall>u html e. Detail_URL rec = Some u \<and> fst (fetch_detail_html br u c) = Inr html
         \<and> parse_about_from_html BS (Some html) = Inl e \<longrightarrow>
         fst (about_text_of BS br rec c) = [])"
  by (auto simp add: about_text_of_def Let_def split: option.splits sum.splits)

text \<open>
  C1. Started with no speakers, the loop ends with one speaker per card: the speaker at
  position \<open>i\<close> carries the stripped name and tags of the card at position \<open>i\<close>, and the
  biography computed for that card in the context the earlier cards left. That biography
  is empty when the card has no detail URL, when the fetch raises, and when the parse of
  the fetched HTML raises. The loop is a total function: no card stops it.
\<close>

theorem enrich_loop_one_per_record:
  "length (snd (enrich_loop BeautifulSoup browser records (s, []))) = length records
   \<and> (\<forall>i < length records.
        snd (enrich_loop BeautifulSoup browser records (s, [])) ! i =
          \<lparr>Name = strip (Name (records ! i)), First_Tag = strip (First_Tag (records ! i)),
           Last_Tag = strip (Last_Tag (records ! i)),
           About_the_Speaker =
             strip (fst (about_text_of BeautifulSoup browser (records ! i)
               (fst (enrich_loop BeautifulSoup browser (take i records) (s, [])))))\<rparr>)
   \<and> (\<forall>(rec::card) c. Detail_URL rec = None \<or> Detail_URL rec = Some [] \<longrightarrow>
         strip (fst (about_text_of BeautifulSoup browser rec c)) = [])
   \<and> (\<forall>(rec::card) c u e. Detail_URL rec = Some u \<and> fst (fetch_detail_html browser u c) = Inl e \<longrightarrow>
         strip (fst (about_text_of BeautifulSoup browser rec c)) = [])
   \<and> (\<forall>(rec::card) c u html e. Detail_URL rec = Some u \<and> fst (fetch_detail_html browser u c) = Inr html
         \<and> parse_about_from_html BeautifulSoup (Some html) = Inl e \<longrightarrow>
         strip (fst (about_text_of BeautifulSoup browser rec c)) = [])"
proof (intro conjI allI impI)
  show "length (snd (enrich_loop BeautifulSoup browser records (s, []))) = length records"
    by (simp add: enrich_loop_length)
next
  fix i assume "i < length records"
  then show "snd (enrich_loop BeautifulSoup browser records (s, [])) ! i =
          \<lparr>Name = strip (Name (records ! i)), First_Tag = strip (First_Tag (records ! i)),
           Last_Tag = strip (Last_Tag (records ! i)),
           About_the_Speaker =
             strip (fst (about_text_of BeautifulSoup browser (records ! i)
               (fst (enrich_loop BeautifulSoup browser (take i records) (s, [])))))\<rparr>"
    by (rule enrich_loop_nth)
next
  fix rec :: card and c assume "Detail_URL rec = None \<or> Detail_URL rec = Some []"
  then show "strip (fst (about_text_of BeautifulSoup browser rec c)) = []"
    using about_text_of_cases [of rec BeautifulSoup browser c] by (simp add: strip_Nil)
next
  fix rec :: card and c u e assume "Detail_URL rec = Some u \<and> fst (fetch_detail_html browser u c) = Inl e"
  then show "strip (fst (about_text_of BeautifulSoup browser rec c)) = []"
    using about_text_of_cases [of rec BeautifulSoup browser c] by (simp add: strip_Nil)
next
  fix rec :: card and c u html e
  assume "Detail_URL rec = Some u \<and> fst (fetch_detail_html browser u c) = Inr html
         \<and> parse_about_from_html BeautifulSoup (Some html) = Inl e"
  then show "strip (fst (about_text_of BeautifulSoup browser rec c)) = []"
    using about_text_of_cases [of rec BeautifulSoup browser c] by (simp add: strip_Nil)
qed

theorem enrich_loop_one_per_record_witness:
  "snd (enrich_loop sample_parser end_to_end_browser sample_cards (fresh_context, [])) =
     [\<lparr>Name = ''Ann'', First_Tag = ''Healing'', Last_Tag = ''Yoga'', About_the_Speaker = []\<rparr>,
      \<lparr>Name = ''Bob'', First_Tag = ''Author'', Last_Tag = ''Author'', About_the_Speaker = []\<rparr>,
      \<lparr>Name = ''Cy'', First_Tag = [], Last_Tag = [], About_the_Speaker = ''Bio''\<rparr>]
   \<and> length (snd (enrich_loop sample_parser end_to_end_browser sample_cards (fresh_context, []))) = 3
   \<and> fst (fetch_detail_html end_to_end_browser ''https://www.alternatives.org.uk/bob'' fresh_context) =
       Inl PwTimeout
   \<and> About_the_Speaker
        (snd (enrich_loop sample_parser end_to_end_browser sample_cards (fresh_context, [])) ! 0) = []
   \<and> About_the_Speaker
        (snd (enrich_loop sample_parser end_to_end_browser sample_cards (fresh_context, [])) ! 1) = []"
proof -
  let ?out = "snd (enrich_loop sample_parser end_to_end_browser sample_cards (fresh_context, []))"
  have v: "?out =
     [\<lparr>Name = ''Ann'', First_Tag = ''Healing'', Last_Tag = ''Yoga'', About_the_Speaker = []\<rparr>,
      \<lparr>Name = ''Bob'', First_Tag = ''Author'', Last_Tag = ''Author'', About_the_Speaker = []\<rparr>,
      \<lparr>Name = ''Cy'', First_Tag = [], Last_Tag = [], About_the_Speaker = ''Bio''\<rparr>]"
    by code_simp
  have len: "length sample_cards = 3" by (simp add: sample_cards_def)
  have u0: "Detail_URL (sample_cards ! 0) = None" by (simp add: sample_cards_def)
  have u1: "Detail_URL (sample_cards ! 1) = Some ''https://www.alternatives.org.uk/bob''"
    by (simp add: sample_cards_def)
  have s1: "fst (enrich_loop sample_parser end_to_end_browser (take 1 sample_cards) (fresh_context, [])) =
      fresh_context"
    by code_simp
  have f1: "fst (fetch_detail_html end_to_end_browser ''https://www.alternatives.org.uk/bob'' fresh_context) =
      Inl PwTimeout"
    by code_simp
  note t = enrich_loop_one_per_record [of sample_parser end_to_end_browser sample_cards fresh_context]
  from t len have n: "length ?out = 3" by simp
  from t len have o0: "About_the_Speaker (?out ! 0) =
      strip (fst (about_text_of sample_parser end_to_end_browser (sample_cards ! 0)
        (fst (enrich_loop sample_parser end_to_end_browser (take 0 sample_cards) (fresh_context, [])))))"
    by simp
  from t u0 have a0: "About_the_Speaker (?out ! 0) = []"
    unfolding o0 by blast
  from t len have o1: "About_the_Speaker (?out ! 1) =
      strip (fst (about_text_of sample_parser end_to_end_browser (sample_cards ! 1)
        (fst (enrich_loop sample_parser end_to_end_browser (take 1 sample_cards) (fresh_context, [])))))"
    by simp
  from t u1 f1 have a1: "About_the_Speaker (?out ! 1) = []"
    unfolding o1 s1 by blast
  from v n f1 a0 a1 show ?thesis by simp
qed

lemma enrich_loop_all:
  assumes "\<forall>sp \<in> set (snd st). P sp"
      and "\<And>(r::card) about. P \<lparr>Name = strip (Name r), First_Tag = strip (First_Tag r),
             Last_Tag = strip (Last_Tag r), About_the_Speaker = strip about\<rparr>"
  shows "\<forall>sp \<in> set (snd (enrich_loop BS br recs st)). P sp"
  using assms(1)
proof (induction recs arbitrary: st)
  case Nil
  then show ?case by simp
next
  case (Cons r recs)
  have "\<forall>sp \<in> set (snd (enrich_step BS br r st)). P sp"
    using Cons.prems assms(2) by (simp add: enrich_step_snd)
  then show ?case using Cons.IH by simp
qed

text \<open>
  C9. Every speaker the loop appends has a name, a first tag, a last tag and a biography
  with no leading and no trailing whitespace, whatever the cards hold and whatever the
  fetches do.
\<close>

theorem enriched_fields_trimmed:
  "\<forall>sp \<in> set (snd (enrich_loop BeautifulSoup browser records (s, []))).
     trimmed (Name sp) \<and> trimmed (First_Tag sp) \<and> trimmed (Last_Tag sp)
     \<and> trimmed (About_the_Speaker sp)"
  by (rule enrich_loop_all) (simp_all add: strip_trimmed)

theorem enriched_fields_trimmed_witness:
  "Name (sample_cards ! 2) = '' Cy ''
   \<and> Name (snd (enrich_loop sample_parser end_to_end_browser sample_cards (fresh_context, [])) ! 2) = ''Cy''
   \<and> trimmed (Name (snd (enrich_loop sample_parser end_to_end_browser sample_cards (fresh_context, [])) ! 2))
   \<and> trimmed (About_the_Speaker
        (snd (enrich_loop sample_parser end_to_end_browser sample_cards (fresh_context, [])) ! 2))"
proof -
  let ?out = "snd (enrich_loop sample_parser end_to_end_browser sample_cards (fresh_context, []))"
  have v: "?out ! 2 = \<lparr>Name = ''Cy'', First_Tag = [], Last_Tag = [], About_the_Speaker = ''Bio''\<rparr>"
    by code_simp
  have m: "?out ! 2 \<in> set ?out" by code_simp
  have c: "Name (sample_cards ! 2) = '' Cy ''" by (simp add: sample_cards_def)
  from enriched_fields_trimmed [of sample_parser end_to_end_browser sample_cards fresh_context] m
  have "trimmed (Name (?out ! 2)) \<and> trimmed (About_the_Speaker (?out ! 2))" by blast
  with v c show ?thesis by simp
qed

section \<open>Post-processing\<close>

lemma first_occurrences_Cons:
  "map (\<lambda>i. (r # rs) ! i)
     (filter (\<lambda>i. (r # rs) ! i \<notin> S \<union> set (take i (r # rs))) [0..<length (r # rs)]) =
   (if r \<in> S then [] else [r]) @
   map (\<lambda>i. rs ! i) (filter (\<lambda>i. rs ! i \<notin> insert r S \<union> set (take i rs)) [0..<length rs])"
proof -
  have upt: "[0..<length (r # rs)] = 0 # map Suc [0..<length rs]"
    by (simp add: upt_conv_Cons map_Suc_upt del: upt_Suc)
  have tl: "filter (\<lambda>i. (r # rs) ! i \<notin> S \<union> set (take i (r # rs))) (map Suc [0..<length rs]) =
      map Suc (filter (\<lambda>i. rs ! i \<notin> insert r S \<union> set (take i rs)) [0..<length rs])"
    by (simp add: filter_map comp_def conj_left_commute)
  show ?thesis
    by (simp only: upt filter.simps tl) (simp add: comp_def)
qed

lemma drop_duplicates_seen_index:
  "drop_duplicates_seen seen rs =
     map (\<lambda>i. rs ! i) (filter (\<lambda>i. rs ! i \<notin> set seen \<union> set (take i rs)) [0..<length rs])"
proof (induction rs arbitrary: seen)
  case Nil
  show ?case by simp
next
  case (Cons r rs)
  show ?case
  proof (cases "r \<in> set seen")
    case True
    then have "insert r (set seen) = set seen" by auto
    with True show ?thesis
      by (simp only: first_occurrences_Cons drop_duplicates_seen.simps Cons.IH [of seen])
        simp
  next
    case False
    have "insert r (set seen) = set (seen @ [r])" by simp
    with False show ?thesis
      by (simp only: first_occurrences_Cons drop_duplicates_seen.simps Cons.IH [of "seen @ [r]"])
        simp
  qed
qed

lemma drop_duplicates_seen_set:
  "set (drop_duplicates_seen seen rs) = set rs - set seen"
  by (induction rs arbitrary: seen) auto

lemma drop_duplicates_seen_distinct:
  "distinct (drop_duplicates_seen seen rs)"
  by (induction rs arbitrary: seen) (auto simp add: drop_duplicates_seen_set)

lemma df_replace_cell:
  assumes "i < length rows" and "j < length (rows ! i)"
  shows "df_replace rows ! i ! j =
     (if rows ! i ! j = None \<or> rows ! i ! j = Some [] then Some ''N/A'' else rows ! i ! j)"
  using assms by (auto simp add: df_replace_def replace_cell_def)

text \<open>
  C2. Post-processing removes duplicates from the frame after the replacement. The
  replacement keeps the shape of the frame and turns every cell that is absent or the
  empty string into \<open>N/A\<close>, leaving every other cell as it is. Removing duplicates keeps
  exactly the rows at the positions where a row occurs for the first time, in the order of
  those positions; the rows kept are pairwise different and every row of the frame is
  among them.
\<close>

theorem post_process_normalizes_then_deduplicates:
  "post_process speakers = drop_duplicates (df_replace (DataFrame speakers))
   \<and> length (df_replace rows) = length rows
   \<and> (\<forall>i < length rows. length (df_replace rows ! i) = length (rows ! i)
        \<and> (\<forall>j < length (rows ! i).
             df_replace rows ! i ! j =
               (if rows ! i ! j = None \<or> rows ! i ! j = Some [] then Some ''N/A'' else rows ! i ! j)))
   \<and> drop_duplicates rows =
       map (\<lambda>i. rows ! i) (filter (\<lambda>i. rows ! i \<notin> set (take i rows)) [0..<length rows])
   \<and> distinct (drop_duplicates rows)
   \<and> set (drop_duplicates rows) = set rows"
proof (intro conjI allI impI)
  show "post_process speakers = drop_duplicates (df_replace (DataFrame speakers))"
    by (simp add: post_process_def)
  show "length (df_replace rows) = length rows"
    by (simp add: df_replace_def)
  show "drop_duplicates rows =
      map (\<lambda>i. rows ! i) (filter (\<lambda>i. rows ! i \<notin> set (take i rows)) [0..<length rows])"
    using drop_duplicates_seen_index [of "[]" rows] by (simp add: drop_duplicates_def)
  show "distinct (drop_duplicates rows)"
    by (simp add: drop_duplicates_def drop_duplicates_seen_distinct)
  show "set (drop_duplicates rows) = set rows"
    by (simp add: drop_duplicates_def drop_duplicates_seen_set)
next
  fix i assume "i < length rows"
  then show "length (df_replace rows ! i) = length (rows ! i)"
    by (simp add: df_replace_def)
next
  fix i j assume "i < length rows" and "j < length (rows ! i)"
  then show "df_replace rows ! i ! j =
      (if rows ! i ! j = None \<or> rows ! i ! j = Some [] then Some ''N/A'' else rows ! i ! j)"
    by (rule df_replace_cell)
qed

theorem post_process_normalizes_then_deduplicates_witness:
  "post_process sample_speakers =
     [[Some ''Ann'', Some ''Healing'', Some ''Yoga'', Some ''N/A''],
      [Some ''Bob'', Some ''N/A'', Some ''N/A'', Some ''Bio''],
      [Some ''Cy'', Some ''Author'', Some ''Author'', Some ''N/A'']]
   \<and> df_replace (DataFrame sample_speakers) ! 0 ! 3 = Some ''N/A''
   \<and> df_replace [[None, Some []]] ! 0 ! 0 = Some ''N/A''
   \<and> drop_duplicates [[Some ''a''], [Some ''b''], [Some ''a'']] = [[Some ''a''], [Some ''b'']]"
proof -
  have d: "drop_duplicates (df_replace (DataFrame sample_speakers)) =
     [[Some ''Ann'', Some ''Healing'', Some ''Yoga'', Some ''N/A''],
      [Some ''Bob'', Some ''N/A'', Some ''N/A'', Some ''Bio''],
      [Some ''Cy'', Some ''Author'', Some ''Author'', Some ''N/A'']]"
    by code_simp
  have f: "DataFrame sample_speakers ! 0 ! 3 = Some []" by code_simp
  have l: "0 < length (DataFrame sample_speakers)" "3 < length (DataFrame sample_speakers ! 0)"
    by code_simp+
  have i: "map (\<lambda>i. [[Some ''a''], [Some ''b''], [Some ''a'']] ! i)
      (filter (\<lambda>i. [[Some ''a''], [Some ''b''], [Some ''a'']] ! i
          \<notin> set (take i [[Some ''a''], [Some ''b''], [Some ''a'']]))
        [0..<length [[Some ''a''], [Some ''b''], [Some ''a'']]]) = [[Some ''a''], [Some ''b'']]"
    by code_simp
  from post_process_normalizes_then_deduplicates [of sample_speakers "DataFrame sample_speakers"] d
  have a: "post_process sample_speakers =
     [[Some ''Ann'', Some ''Healing'', Some ''Yoga'', Some ''N/A''],
      [Some ''Bob'', Some ''N/A'', Some ''N/A'', Some ''Bio''],
      [Some ''Cy'', Some ''Author'', Some ''Author'', Some ''N/A'']]"
    by simp
  from post_process_normalizes_then_deduplicates [of sample_speakers "DataFrame sample_speakers"] l f
  have b: "df_replace (DataFrame sample_speakers) ! 0 ! 3 = Some ''N/A''" by simp
  from post_process_normalizes_then_deduplicates [of sample_speakers "[[None, Some []]]"]
  have c: "df_replace [[None, Some []]] ! 0 ! 0 = Some ''N/A''" by simp
  from post_process_normalizes_then_deduplicates [of sample_speakers "[[Some ''a''], [Some ''b''], [Some ''a'']]"] i
  have e: "drop_duplicates [[Some ''a''], [Some ''b''], [Some ''a'']] = [[Some ''a''], [Some ''b'']]"
    by simp
  from a b c e show ?thesis by simp
qed

section \<open>The Card Parser\<close>

lemma cards_loop_Inr:
  assumes "cards_loop uj acc rows = Inr cards"
  shows "length cards = length acc + length rows \<and> take (length acc) cards = acc
     \<and> (\<forall>i < length rows. row_card uj (rows ! i) = Inr (cards ! (length acc + i)))"
  using assms
proof (induction rows arbitrary: acc)
  case Nil
  then show ?case by simp
next
  case (Cons r rows)
  from Cons.prems obtain c where c: "row_card uj r = Inr c"
      and rest: "cards_loop uj (acc @ [c]) rows = Inr cards"
    by (auto split: sum.splits)
  from Cons.IH [OF rest] have len: "length cards = Suc (length acc) + length rows"
      and tk: "take (Suc (length acc)) cards = acc @ [c]"
      and nth: "\<forall>i < length rows. row_card uj (rows ! i) = Inr (cards ! (Suc (length acc) + i))"
    by simp_all
  from tk have "take (length acc) (take (Suc (length acc)) cards) = take (length acc) (acc @ [c])"
    by simp
  then have tk': "take (length acc) cards = acc" by simp
  from tk len have "cards ! length acc = (acc @ [c]) ! length acc"
    by (metis lessI nth_take)
  then have here: "cards ! length acc = c" by simp
  have "row_card uj ((r # rows) ! i) = Inr (cards ! (length acc + i))" if "i < length (r # rows)" for i
  proof (cases i)
    case 0
    with c here show ?thesis by simp
  next
    case (Suc j)
    with that nth show ?thesis by simp
  qed
  with len tk' show ?case by simp
qed

lemma cards_loop_resolved:
  assumes "\<forall>r \<in> set rows. \<exists>c. row_card uj r = Inr c"
  shows "\<exists>cards. cards_loop uj acc rows = Inr cards"
  using assms by (induction rows arbitrary: acc) auto

lemma cards_loop_unresolved:
  assumes "row_card uj r = Inl e" and "\<forall>r \<in> set before. \<exists>c. row_card uj r = Inr c"
  shows "cards_loop uj acc (before @ r # after) = Inl e"
  using assms by (induction before arbitrary: acc) auto

lemma row_card_tags:
  assumes "row_card uj row = Inr c"
  shows "First_Tag c = strip (fst (row_tags row)) \<and> Last_Tag c = strip (snd (row_tags row))"
  using assms by (auto simp add: row_card_def Let_def split: sum.splits)

text \<open>
  When every link of the page resolves, the parser returns one card per row, in the order
  of the rows.
\<close>

lemma parse_main_cards_in_row_order:
  assumes "BeautifulSoup html = Inr soup"
      and "\<forall>row \<in> set (select_class ''div'' ''views-row'' ([], soup)). \<exists>c. row_card urljoin row = Inr c"
  shows "\<exists>cards. parse_main_cards BeautifulSoup urljoin html = Inr cards
     \<and> length cards = length (select_class ''div'' ''views-row'' ([], soup))
     \<and> (\<forall>i < length cards.
          row_card urljoin (select_class ''div'' ''views-row'' ([], soup) ! i) = Inr (cards ! i))"
proof -
  let ?rows = "select_class ''div'' ''views-row'' ([], soup)"
  from cards_loop_resolved [OF assms(2), of "[]"] obtain cards
    where loop: "cards_loop urljoin [] ?rows = Inr cards" by blast
  from cards_loop_Inr [OF loop] assms(1) loop show ?thesis
    by (simp add: parse_main_cards_def)
qed

text \<open>
  C6. When the parser returns, it returns one card per row. The list of a row is the
  first \<open>ul\<close> inside it, and what the parser reads are the \<open>li\<close> elements inside that
  \<open>ul\<close> at any depth. The card of a row that has no \<open>ul\<close>, or whose \<open>ul\<close> has no \<open>li\<close>
  inside, has two empty tags; the card of a row whose \<open>ul\<close> has exactly one \<open>li\<close> inside
  has a first tag equal to its last tag.
\<close>

theorem tags_of_parsed_rows:
  assumes "BeautifulSoup html = Inr soup"
      and "parse_main_cards BeautifulSoup urljoin html = Inr cards"
  shows "length cards = length (select_class ''div'' ''views-row'' ([], soup))
     \<and> (\<forall>i < length cards.
          (find_first ''ul'' (select_class ''div'' ''views-row'' ([], soup) ! i) = None
             \<or> (\<exists>ul. find_first ''ul'' (select_class ''div'' ''views-row'' ([], soup) ! i) = Some ul
                   \<and> find_all ''li'' ul = [])
           \<longrightarrow> First_Tag (cards ! i) = [] \<and> Last_Tag (cards ! i) = [])
          \<and> ((\<exists>ul li. find_first ''ul'' (select_class ''div'' ''views-row'' ([], soup) ! i) = Some ul
                   \<and> find_all ''li'' ul = [li])
           \<longrightarrow> First_Tag (cards ! i) = Last_Tag (cards ! i)))"
proof -
  let ?rows = "select_class ''div'' ''views-row'' ([], soup)"
  from assms have loop: "cards_loop urljoin [] ?rows = Inr cards"
    by (simp add: parse_main_cards_def)
  from cards_loop_Inr [OF loop] have len: "length cards = length ?rows"
      and nth: "\<forall>i < length ?rows. row_card urljoin (?rows ! i) = Inr (cards ! i)"
    by simp_all
  have "(find_first ''ul'' (?rows ! i) = None
          \<or> (\<exists>ul. find_first ''ul'' (?rows ! i) = Some ul \<and> find_all ''li'' ul = [])
         \<longrightarrow> First_Tag (cards ! i) = [] \<and> Last_Tag (cards ! i) = [])
       \<and> ((\<exists>ul li. find_first ''ul'' (?rows ! i) = Some ul \<and> find_all ''li'' ul = [li])
         \<longrightarrow> First_Tag (cards ! i) = Last_Tag (cards ! i))" if "i < length cards" for i
  proof -
    from that len nth have "row_card urljoin (?rows ! i) = Inr (cards ! i)" by simp
    then have tags: "First_Tag (cards ! i) = strip (fst (row_tags (?rows ! i)))"
        "Last_Tag (cards ! i) = strip (snd (row_tags (?rows ! i)))"
      using row_card_tags by blast+
    show ?thesis
      by (auto simp add: tags row_tags_def strip_Nil)
  qed
  with len show ?thesis by blast
qed

theorem tags_of_parsed_rows_witness:
  "parse_main_cards (\<lambda>h. Inr directory_document) path_urljoin ''<html>'' = Inr directory_cards
   \<and> length (select_class ''div'' ''views-row'' ([], directory_document)) = 3
   \<and> First_Tag (directory_cards ! 0) = [] \<and> Last_Tag (directory_cards ! 0) = []
   \<and> First_Tag (directory_cards ! 1) = Last_Tag (directory_cards ! 1)
   \<and> First_Tag (directory_cards ! 2) = [] \<and> Last_Tag (directory_cards ! 2) = []"
proof -
  let ?rows = "select_class ''div'' ''views-row'' ([], directory_document)"
  let ?ul1 = "([''div'', ''[document]''], Tag ''ul'' [] [] [Tag ''li'' [] [] [NavigableString '' Author '']])"
  let ?li1 = "([''ul'', ''div'', ''[document]''], Tag ''li'' [] [] [NavigableString '' Author ''])"
  let ?ul2 = "([''div'', ''[document]''], Tag ''ul'' [] [] [])"
  have p: "(\<lambda>h. Inr directory_document) ''<html>'' = Inr directory_document" by simp
  have r: "parse_main_cards (\<lambda>h. Inr directory_document) path_urljoin ''<html>'' = Inr directory_cards"
    by code_simp
  have len: "length directory_cards = 3" by (simp add: directory_cards_def)
  have h0: "find_first ''ul'' (?rows ! 0) = None" by code_simp
  have h1: "find_first ''ul'' (?rows ! 1) = Some ?ul1 \<and> find_all ''li'' ?ul1 = [?li1]" by code_simp
  have h2: "find_first ''ul'' (?rows ! 2) = Some ?ul2 \<and> find_all ''li'' ?ul2 = []" by code_simp
  note t = tags_of_parsed_rows [OF p r]
  from t len have n: "length ?rows = 3" by simp
  from t len h0 have t0: "First_Tag (directory_cards ! 0) = [] \<and> Last_Tag (directory_cards ! 0) = []"
    by simp
  from t len h1 have t1: "First_Tag (directory_cards ! 1) = Last_Tag (directory_cards ! 1)"
    by simp
  from t len h2 have t2: "First_Tag (directory_cards ! 2) = [] \<and> Last_Tag (directory_cards ! 2) = []"
    by simp
  from r n t0 t1 t2 show ?thesis by simp
qed

text \<open>
  With the items of the spec, the \<open>li\<close> children, the rule fails both ways. A list whose
  one item holds a nested list gives a first tag \<open>AB\<close> and a last tag \<open>B\<close>: the nested
  \<open>li\<close> is the last one found. A list with no \<open>li\<close> child and an \<open>li\<close> deeper inside gives
  the tag \<open>X\<close>.
\<close>

theorem nested_list_tags_differ:
  "parse_main_cards (\<lambda>h. Inr nested_list_document) path_urljoin ''<html>'' = Inr nested_list_cards
   \<and> find_first ''ul'' (select_class ''div'' ''views-row'' ([], nested_list_document) ! 0) =
       Some ([''div'', ''[document]''],
         Tag ''ul'' [] []
           [Tag ''li'' [] []
              [NavigableString ''A'', Tag ''ul'' [] [] [Tag ''li'' [] [] [NavigableString ''B'']]]])
   \<and> length (spec_list_items ([''div'', ''[document]''],
         Tag ''ul'' [] []
           [Tag ''li'' [] []
              [NavigableString ''A'', Tag ''ul'' [] [] [Tag ''li'' [] [] [NavigableString ''B'']]]])) = 1
   \<and> First_Tag (nested_list_cards ! 0) = ''AB''
   \<and> Last_Tag (nested_list_cards ! 0) = ''B''
   \<and> First_Tag (nested_list_cards ! 0) \<noteq> Last_Tag (nested_list_cards ! 0)
   \<and> find_first ''ul'' (select_class ''div'' ''views-row'' ([], nested_list_document) ! 1) =
       Some ([''div'', ''[document]''],
         Tag ''ul'' [] [] [Tag ''div'' [] [] [Tag ''li'' [] [] [NavigableString ''X'']]])
   \<and> spec_list_items ([''div'', ''[document]''],
         Tag ''ul'' [] [] [Tag ''div'' [] [] [Tag ''li'' [] [] [NavigableString ''X'']]]) = []
   \<and> First_Tag (nested_list_cards ! 1) = ''X''
   \<and> First_Tag (nested_list_cards ! 1) \<noteq> []"
  by code_simp

text \<open>
  C3. The parser does not return on every page. On the page with two rows whose second
  row links to \<open>//[\<close>, \<open>urljoin\<close> raises \<open>ValueError\<close>; nothing catches it, and the
  parser raises it instead of returning the two cards.
\<close>

theorem parse_main_cards_unresolvable_href:
  assumes "BeautifulSoup html = Inr broken_link_document"
      and "urljoin BASE ''//['' = Inl ValueError"
      and "urljoin BASE ''/experts/ann'' = Inr u"
  shows "parse_main_cards BeautifulSoup urljoin html = Inl ValueError"
proof -
  have rows: "select_class ''div'' ''views-row'' ([], broken_link_document) =
      [([''[document]''], Tag ''div'' [''views-row''] []
          [Tag ''h3'' [] [] [Tag ''a'' [] [(''href'', ''/experts/ann'')] [NavigableString ''Ann'']]])] @
      ([''[document]''], Tag ''div'' [''views-row''] []
          [Tag ''h3'' [] [] [Tag ''a'' [] [(''href'', ''//['')] [NavigableString ''Bob'']]]) # []"
    by code_simp
  have good: "\<exists>c. row_card urljoin ([''[document]''], Tag ''div'' [''views-row''] []
          [Tag ''h3'' [] [] [Tag ''a'' [] [(''href'', ''/experts/ann'')] [NavigableString ''Ann'']]]) = Inr c"
    using assms(3) by (simp add: row_card_def select_one_inside_def Let_def)
  have bad: "row_card urljoin ([''[document]''], Tag ''div'' [''views-row''] []
          [Tag ''h3'' [] [] [Tag ''a'' [] [(''href'', ''//['')] [NavigableString ''Bob'']]]) = Inl ValueError"
    using assms(2) by (simp add: row_card_def select_one_inside_def Let_def)
  show ?thesis
    unfolding parse_main_cards_def assms(1) sum.case rows
    by (rule cards_loop_unresolved [OF bad]) (simp add: good)
qed

theorem parse_main_cards_unresolvable_href_witness:
  "length (select_class ''div'' ''views-row'' ([], broken_link_document)) = 2
   \<and> parse_main_cards (\<lambda>h. Inr broken_link_document) path_urljoin
        ''<div class=views-row><h3><a href=//[>Bob</a></h3></div>'' = Inl ValueError"
proof -
  have n: "length (select_class ''div'' ''views-row'' ([], broken_link_document)) = 2"
    by code_simp
  have a: "path_urljoin BASE ''//['' = Inl ValueError" by (simp add: path_urljoin_def)
  have b: "path_urljoin BASE ''/experts/ann'' = Inr (BASE @ ''/experts/ann'')"
    by (simp add: path_urljoin_def)
  from parse_main_cards_unresolvable_href [of "\<lambda>h. Inr broken_link_document" _ path_urljoin, OF refl a b] n
  show ?thesis by simp
qed

end
